theory Spec2Isabelle
  imports Main
begin

section \<open>JavaScript values shared by the adapter and the demo harness\<close>

text \<open>
  A JavaScript \<^verbatim>\<open>throw\<close> can carry any value. The harness tells \<^verbatim>\<open>Error\<close> instances
  (whose \<^verbatim>\<open>message\<close> it reads) from every other value (which it turns into a string with
  \<^verbatim>\<open>String(err)\<close>), so a thrown value is one of the two. Strings are byte strings.
\<close>

datatype js_thrown =
    JSError (message: string)
  | JSOther (as_string: string)

section \<open>The database factory: \<^verbatim>\<open>drizzle\<close> in OPSQLiteDatabase.ts\<close>

text \<open>
  A logger is the ORM's \<^verbatim>\<open>DefaultLogger\<close>, its \<^verbatim>\<open>NoopLogger\<close>, or an object
  supplied by the caller, identified by its reference.
\<close>

datatype Logger = DefaultLogger | NoopLogger | UserLogger nat

text \<open>\<^verbatim>\<open>DrizzleConfig.logger\<close> has type \<^verbatim>\<open>boolean | Logger\<close> and may be absent.\<close>

datatype logger_setting = Flag bool | LoggerObject Logger

record DrizzleConfig =
  cfg_logger :: "logger_setting option"

text \<open>\<^verbatim>\<open>OpSQLiteSessionOptions\<close>: \<^verbatim>\<open>{ logger?: Logger }\<close>.\<close>

record OpSQLiteSessionOptions =
  opt_logger :: "Logger option"

text \<open>
  The two session classes of the adapter. \<^verbatim>\<open>OPSQLiteSession\<close> extends
  \<^verbatim>\<open>OPSQLiteBaseSession\<close> and overrides \<^verbatim>\<open>transaction\<close>; a session object carries
  its class (for the dispatch of \<^verbatim>\<open>transaction\<close>), the options it was built with and the
  logger its constructor chose.
\<close>

datatype session_class = OPSQLiteBaseSession | OPSQLiteSession

record session =
  session_class :: session_class
  session_options :: OpSQLiteSessionOptions
  session_logger :: Logger

text \<open>
  The constructor of \<^verbatim>\<open>OPSQLiteBaseSession\<close>:
  \<^verbatim>\<open>this.logger = options.logger ?? new NoopLogger()\<close>. The constructor of
  \<^verbatim>\<open>OPSQLiteSession\<close> calls it through \<^verbatim>\<open>super\<close>.
\<close>

definition new_session :: "session_class \<Rightarrow> OpSQLiteSessionOptions \<Rightarrow> session" where
  "new_session c options =
     \<lparr> session_class = c,
       session_options = options,
       session_logger = (case opt_logger options of Some l \<Rightarrow> l | None \<Rightarrow> NoopLogger) \<rparr>"

text \<open>
  The local variable \<^verbatim>\<open>logger\<close> of \<^verbatim>\<open>drizzle\<close>: declared without a value
  (\<^verbatim>\<open>undefined\<close>, here \<open>None\<close>), set to a new \<^verbatim>\<open>DefaultLogger\<close> when
  \<^verbatim>\<open>config.logger === true\<close>, and to \<^verbatim>\<open>config.logger\<close> itself when
  \<^verbatim>\<open>config.logger !== false\<close>.
\<close>

definition drizzle_logger :: "DrizzleConfig \<Rightarrow> Logger option" where
  "drizzle_logger config =
     (if cfg_logger config = Some (Flag True) then Some DefaultLogger
      else if cfg_logger config \<noteq> Some (Flag False) then
        (case cfg_logger config of
           Some (LoggerObject l) \<Rightarrow> Some l
         | _ \<Rightarrow> None)
      else None)"

text \<open>
  \<^verbatim>\<open>drizzle(client, config)\<close> builds
  \<^verbatim>\<open>new OPSQLiteSession(client, dialect, schema, { logger })\<close>; the database object it
  returns wraps that session, which is what the model returns.
\<close>

definition drizzle :: "DrizzleConfig \<Rightarrow> session" where
  "drizzle config = new_session OPSQLiteSession \<lparr> opt_logger = drizzle_logger config \<rparr>"

section \<open>Statements: the \<^verbatim>\<open>sql\<close> template tag\<close>

text \<open>
  \<^verbatim>\<open>sql`begin${v}`\<close> calls the ORM's tag with the literal strings of the template and the
  interpolated values, in their order: a statement is the list of its literal chunks and
  interpolated values.
\<close>

datatype sql_chunk = StringChunk string | Interpolated string

type_synonym SQL = "sql_chunk list"

text \<open>
  What the native client is given for a statement: the text and the bound parameters. The
  ORM's dialect (\<^verbatim>\<open>sqlToQuery\<close>, called by the session's \<^verbatim>\<open>run\<close>) copies a literal chunk
  into the text; for an interpolated JavaScript value it writes the placeholder \<^verbatim>\<open>?\<close> and
  binds the value as a parameter. (Only \<^verbatim>\<open>sql.raw\<close> puts a string into the text as it is;
  the adapter does not use it.)
\<close>

record Query =
  query_sql :: string
  query_params :: "string list"

fun chunk_sql :: "sql_chunk \<Rightarrow> string" where
  "chunk_sql (StringChunk s) = s"
| "chunk_sql (Interpolated v) = ''?''"

fun chunk_params :: "sql_chunk \<Rightarrow> string list" where
  "chunk_params (StringChunk s) = []"
| "chunk_params (Interpolated v) = [v]"

definition sqlToQuery :: "SQL \<Rightarrow> Query" where
  "sqlToQuery q =
     \<lparr> query_sql = concat (map chunk_sql q), query_params = concat (map chunk_params q) \<rparr>"

text \<open>
  \<^verbatim>\<open>OPSQLiteTransactionConfig = SQLiteTransactionConfig & { accessMode?: 'read only' | 'read write' }\<close>,
  where the ORM's \<^verbatim>\<open>SQLiteTransactionConfig\<close> is
  \<^verbatim>\<open>{ behavior?: 'deferred' | 'immediate' | 'exclusive' }\<close>. An omitted \<^verbatim>\<open>config\<close>
  argument defaults to \<^verbatim>\<open>{}\<close>, the record with both fields absent.
\<close>

datatype behavior = Deferred | Immediate | Exclusive

datatype access_mode = ReadOnly | ReadWrite

record OPSQLiteTransactionConfig =
  behavior :: "behavior option"
  accessMode :: "access_mode option"

fun behavior_string :: "behavior \<Rightarrow> string" where
  "behavior_string Deferred = ''deferred''"
| "behavior_string Immediate = ''immediate''"
| "behavior_string Exclusive = ''exclusive''"

text \<open>The interpolated value \<^verbatim>\<open>config?.behavior ? ' ' + config.behavior : ''\<close>.\<close>

definition begin_suffix :: "OPSQLiteTransactionConfig \<Rightarrow> string" where
  "begin_suffix config =
     (case behavior config of Some b \<Rightarrow> '' '' @ behavior_string b | None \<Rightarrow> [])"

definition sql_begin :: "OPSQLiteTransactionConfig \<Rightarrow> SQL" where
  "sql_begin config = [StringChunk ''begin'', Interpolated (begin_suffix config), StringChunk []]"

definition sql_commit :: SQL where
  "sql_commit = [StringChunk ''commit'']"

definition sql_rollback :: SQL where
  "sql_rollback = [StringChunk ''rollback'']"

section \<open>The connection\<close>

text \<open>
  The native driver is external: it is a parameter, a function from a statement and the
  database's state to the error it throws (if any) and the new state. The connection keeps,
  next to the database's state, the trace of what happened on it: every statement handed
  to the driver, and every entry into a transaction callback.
\<close>

datatype event = Run SQL | Callback

record 'db conn =
  events :: "event list"
  db :: 'db

type_synonym 'db driver = "SQL \<Rightarrow> 'db \<Rightarrow> js_thrown option \<times> 'db"

text \<open>
  \<^verbatim>\<open>this.run(query)\<close> of the ORM's session: the statement is prepared and executed on
  the client at once; what the driver throws propagates.
\<close>

definition run :: "'db driver \<Rightarrow> SQL \<Rightarrow> 'db conn \<Rightarrow> js_thrown option \<times> 'db conn" where
  "run drv q c =
     (case drv q (db c) of
        (r, d) \<Rightarrow> (r, \<lparr> events = events c @ [Run q], db = d \<rparr>))"

section \<open>Transactions: OPSQLiteBaseSession.ts and OPSQLiteSession.ts\<close>

text \<open>
  \<^verbatim>\<open>OPSQLiteTransaction\<close> adds nothing to the ORM's \<^verbatim>\<open>SQLiteTransaction\<close>; the object
  holds the session it was built on.
\<close>

record OPSQLiteTransaction =
  tx_session :: session

text \<open>
  A user callback receives the transaction object and runs on the connection: it returns a
  value or throws, and leaves the connection in a new state.
\<close>

type_synonym ('db, 'a) callback =
  "OPSQLiteTransaction \<Rightarrow> 'db conn \<Rightarrow> (js_thrown + 'a) \<times> 'db conn"

text \<open>
  \<^verbatim>\<open>OPSQLiteBaseSession.transaction\<close>: neither argument is used, the body is a single
  \<^verbatim>\<open>throw\<close>.
\<close>

definition base_transaction ::
  "('db, 'a) callback \<Rightarrow> OPSQLiteTransactionConfig \<Rightarrow> 'db conn \<Rightarrow> (js_thrown + 'a) \<times> 'db conn" where
  "base_transaction g config c = (Inl (JSError ''Nested transactions are not supported''), c)"

text \<open>
  The transaction object of \<^verbatim>\<open>OPSQLiteSession.transaction\<close>:
  \<^verbatim>\<open>new OPSQLiteTransaction('sync', this.dialect, new OPSQLiteBaseSession(this.client, this.dialect, this.schema, this.options), this.schema)\<close>.
\<close>

definition new_tx :: "session \<Rightarrow> OPSQLiteTransaction" where
  "new_tx this = \<lparr> tx_session = new_session OPSQLiteBaseSession (session_options this) \<rparr>"

text \<open>The \<^verbatim>\<open>catch\<close> block: \<^verbatim>\<open>this.run(sql`rollback`); throw err;\<close>.\<close>

definition rollback_and_rethrow ::
  "'db driver \<Rightarrow> js_thrown \<Rightarrow> 'db conn \<Rightarrow> (js_thrown + 'a) \<times> 'db conn" where
  "rollback_and_rethrow drv err c =
     (case run drv sql_rollback c of
        (Some e, c') \<Rightarrow> (Inl e, c')
      | (None, c') \<Rightarrow> (Inl err, c'))"

text \<open>
  \<^verbatim>\<open>OPSQLiteSession.transaction\<close>. The \<^verbatim>\<open>begin\<close> statement runs before the
  \<^verbatim>\<open>try\<close>; the callback and the \<^verbatim>\<open>commit\<close> statement run inside it.
\<close>

definition transaction ::
  "'db driver \<Rightarrow> session \<Rightarrow> ('db, 'a) callback \<Rightarrow> OPSQLiteTransactionConfig \<Rightarrow> 'db conn
     \<Rightarrow> (js_thrown + 'a) \<times> 'db conn" where
  "transaction drv this f config c =
     (let tx = new_tx this in
      case run drv (sql_begin config) c of
        (Some e, c1) \<Rightarrow> (Inl e, c1)
      | (None, c1) \<Rightarrow>
          (case f tx (c1\<lparr> events := events c1 @ [Callback] \<rparr>) of
             (Inr result, c2) \<Rightarrow>
               (case run drv sql_commit c2 of
                  (None, c3) \<Rightarrow> (Inr result, c3)
                | (Some err, c3) \<Rightarrow> rollback_and_rethrow drv err c3)
           | (Inl err, c2) \<Rightarrow> rollback_and_rethrow drv err c2))"

text \<open>
  Method dispatch on the session's class, and \<^verbatim>\<open>tx.transaction\<close>: the transaction
  class inherits \<^verbatim>\<open>transaction\<close> from the ORM's database class, which hands the call
  to the session the object was built on.
\<close>

definition session_transaction ::
  "'db driver \<Rightarrow> session \<Rightarrow> ('db, 'a) callback \<Rightarrow> OPSQLiteTransactionConfig \<Rightarrow> 'db conn
     \<Rightarrow> (js_thrown + 'a) \<times> 'db conn" where
  "session_transaction drv this f config c =
     (case session_class this of
        OPSQLiteBaseSession \<Rightarrow> base_transaction f config c
      | OPSQLiteSession \<Rightarrow> transaction drv this f config c)"

definition tx_transaction ::
  "'db driver \<Rightarrow> OPSQLiteTransaction \<Rightarrow> ('db, 'a) callback \<Rightarrow> OPSQLiteTransactionConfig \<Rightarrow> 'db conn
     \<Rightarrow> (js_thrown + 'a) \<times> 'db conn" where
  "tx_transaction drv tx g config c = session_transaction drv (tx_session tx) g config c"

text \<open>
  The driver of a session on a native client: the statement is rendered by the dialect
  and the client executes the result.
\<close>

type_synonym 'db client = "Query \<Rightarrow> 'db \<Rightarrow> js_thrown option \<times> 'db"

definition session_driver :: "'db client \<Rightarrow> 'db driver" where
  "session_driver client q d = client (sqlToQuery q) d"

subsection \<open>Concrete drivers and callbacks\<close>

text \<open>A client that accepts whatever it is given and keeps it, in order.\<close>

definition recording_client :: "Query list client" where
  "recording_client query received = (None, received @ [query])"

text \<open>A driver that executes every statement, counting them.\<close>

definition counting_driver :: "nat driver" where
  "counting_driver q d = (None, Suc d)"

text \<open>A connection whose database another connection has locked: every statement throws.\<close>

definition locked_driver :: "nat driver" where
  "locked_driver q d = (Some (JSError ''database is locked''), d)"

text \<open>
  A database that has already rolled the transaction back on its own, as SQLite does after
  some errors: an explicit \<^verbatim>\<open>rollback\<close> then throws.
\<close>

definition autorollback_driver :: "nat driver" where
  "autorollback_driver q d =
     (if q = sql_rollback then (Some (JSError ''cannot rollback - no transaction is active''), d)
      else (None, Suc d))"

definition sql_insert_list :: SQL where
  "sql_insert_list = [StringChunk ''insert into lists (id, name) values (1, 2)'']"

text \<open>A callback that runs one statement and returns a value.\<close>

definition inserting_callback :: "nat driver \<Rightarrow> nat \<Rightarrow> (nat, nat) callback" where
  "inserting_callback drv v tx c =
     (case run drv sql_insert_list c of
        (Some e, c') \<Rightarrow> (Inl e, c')
      | (None, c') \<Rightarrow> (Inr v, c'))"

text \<open>A callback that returns at once, and one that throws at once.\<close>

definition returning_callback :: "'a \<Rightarrow> ('db, 'a) callback" where
  "returning_callback v tx c = (Inr v, c)"

definition throwing_callback :: "js_thrown \<Rightarrow> (nat, nat) callback" where
  "throwing_callback e tx c = (Inl e, c)"

text \<open>A callback that only tries to start a nested transaction.\<close>

definition nesting_callback ::
  "nat driver \<Rightarrow> (nat, nat) callback \<Rightarrow> OPSQLiteTransactionConfig \<Rightarrow> (nat, nat) callback" where
  "nesting_callback drv g config tx c = tx_transaction drv tx g config c"

definition fresh_conn :: "nat conn" where
  "fresh_conn = \<lparr> events = [], db = 0 \<rparr>"

section \<open>The demo harness: SimultaneousWritesScreen.tsx\<close>

subsection \<open>Strings\<close>

text \<open>
  \<^verbatim>\<open>String.prototype.toLowerCase\<close> on byte strings: the letters \<^verbatim>\<open>A\<close> to \<^verbatim>\<open>Z\<close> become
  \<^verbatim>\<open>a\<close> to \<^verbatim>\<open>z\<close>, every other byte stays. (JavaScript also maps letters outside ASCII;
  the model's strings hold them as the bytes of their encoding, which stay as they are.)
\<close>

definition lower_char :: "char \<Rightarrow> char" where
  "lower_char ch =
     (let n = (of_char ch :: nat) in if 65 \<le> n \<and> n \<le> 90 then char_of (n + 32) else ch)"

definition toLowerCase :: "string \<Rightarrow> string" where
  "toLowerCase s = map lower_char s"

text \<open>\<^verbatim>\<open>s.includes(t)\<close>: \<open>t\<close> occurs in \<open>s\<close> at some position.\<close>

fun js_includes :: "string \<Rightarrow> string \<Rightarrow> bool" where
  "js_includes [] t = (t = [])"
| "js_includes (x # xs) t = (take (length t) (x # xs) = t \<or> js_includes xs t)"

text \<open>
  A number in a template literal is written with \<^verbatim>\<open>Number.prototype.toString\<close>: for a
  natural number, its decimal digits.
\<close>

definition digit_char :: "nat \<Rightarrow> char" where
  "digit_char d = char_of (48 + d)"

function number_toString :: "nat \<Rightarrow> string" where
  "number_toString n =
     (if n < 10 then [digit_char n]
      else number_toString (n div 10) @ [digit_char (n mod 10)])"
  by pat_completeness auto
termination
  by (relation "measure (\<lambda>n. n)") auto

declare number_toString.simps [simp del]

text \<open>The number a string of decimal digits stands for.\<close>

definition nat_of_digits :: "string \<Rightarrow> nat" where
  "nat_of_digits s = foldl (\<lambda>a ch. 10 * a + (of_char ch - 48)) 0 s"

text \<open>\<^verbatim>\<open>err instanceof Error ? err.message : String(err)\<close>.\<close>

fun error_text :: "js_thrown \<Rightarrow> string" where
  "error_text (JSError m) = m"
| "error_text (JSOther s) = s"

subsection \<open>Test results, rows and identifiers\<close>

record TestResult =
  name :: string
  passed :: bool
  error :: "string option"

text \<open>
  A row of the \<^verbatim>\<open>lists\<close> table as a query returns it; a column can be \<^verbatim>\<open>null\<close>.
\<close>

record row =
  row_id :: "string option"
  row_name :: "string option"
  row_owner_id :: "string option"

text \<open>
  \<^verbatim>\<open>uuid()\<close> draws on \<^verbatim>\<open>Math.random\<close>. A run of a test is given the identifiers it
  draws, as a function from the number of the call (from 0, within that run) to the
  string the call returns.
\<close>

type_synonym uuids = "nat \<Rightarrow> string"

definition POWER_SYNC_WRITE_COUNT :: nat where
  "POWER_SYNC_WRITE_COUNT = 100"

subsection \<open>\<^verbatim>\<open>runLockingTest\<close>\<close>

text \<open>
  The harness reaches the databases through two external clients. What it calls on
  them is recorded; what the calls do is given by an environment: the error (if any)
  thrown by \<^verbatim>\<open>BEGIN IMMEDIATE TRANSACTION\<close> on the separate connection, by the insert
  through the managed connection, and by \<^verbatim>\<open>ROLLBACK\<close> on the separate connection.
\<close>

datatype harness_call =
    SeparateExecuteSync string
  | ManagedExecute string "string list"

record lock_env =
  separate_begin :: "js_thrown option"
  managed_insert :: "js_thrown option"
  separate_rollback :: "js_thrown option"

text \<open>\<^verbatim>\<open>!!lockError && lockError.toLowerCase().includes('lock')\<close>.\<close>

definition lockDetected :: "string option \<Rightarrow> bool" where
  "lockDetected lockError =
     (case lockError of
        None \<Rightarrow> False
      | Some m \<Rightarrow> m \<noteq> [] \<and> js_includes (toLowerCase m) ''lock'')"

text \<open>
  The \<^verbatim>\<open>try\<close> block holds both the \<^verbatim>\<open>BEGIN IMMEDIATE TRANSACTION\<close> on the separate
  connection and the awaited insert through the managed connection; the \<^verbatim>\<open>catch\<close>
  takes the text of whatever either throws. The result is the pair of \<^verbatim>\<open>lockError\<close>
  and the calls made.
\<close>

definition locking_try :: "uuids \<Rightarrow> lock_env \<Rightarrow> string option \<times> harness_call list" where
  "locking_try uuid env =
     (let lockTestId = uuid 0 in
      case separate_begin env of
        Some err \<Rightarrow> (Some (error_text err), [SeparateExecuteSync ''BEGIN IMMEDIATE TRANSACTION''])
      | None \<Rightarrow>
          (let calls =
             [SeparateExecuteSync ''BEGIN IMMEDIATE TRANSACTION'',
              ManagedExecute ''INSERT INTO lists (id, name, owner_id) VALUES (?, ?, ?)''
                [lockTestId, ''Locked insert'', uuid 1]]
           in case managed_insert env of
                Some err \<Rightarrow> (Some (error_text err), calls)
              | None \<Rightarrow> (None, calls)))"

text \<open>
  The \<^verbatim>\<open>finally\<close> block runs \<^verbatim>\<open>ROLLBACK\<close> on the separate connection and ignores what
  it throws; then the result is built.
\<close>

definition runLockingTest :: "uuids \<Rightarrow> lock_env \<Rightarrow> TestResult \<times> harness_call list" where
  "runLockingTest uuid env =
     (case locking_try uuid env of
        (lockError, calls) \<Rightarrow>
          (\<lparr> name = ''Separate write connection blocks PowerSync write'',
             passed = lockDetected lockError,
             error =
               (if lockDetected lockError then None
                else Some (''Expected lock error when separate connection holds transaction. Got: ''
                       @ (case lockError of Some m \<Rightarrow> m | None \<Rightarrow> ''no error''))) \<rparr>,
           calls @ [SeparateExecuteSync ''ROLLBACK'']))"

subsection \<open>\<^verbatim>\<open>runHookedConnectionSimultaneousWrites\<close>\<close>

text \<open>
  The identifiers drawn: first \<^verbatim>\<open>drizzleId\<close>, then the \<^verbatim>\<open>POWER_SYNC_WRITE_COUNT\<close>
  elements of \<^verbatim>\<open>powersyncIds\<close>.
\<close>

definition drizzleId :: "uuids \<Rightarrow> string" where
  "drizzleId uuid = uuid 0"

definition powersyncIds :: "uuids \<Rightarrow> string list" where
  "powersyncIds uuid = map uuid [1 ..< Suc POWER_SYNC_WRITE_COUNT]"

text \<open>
  \<^verbatim>\<open>queryResults.some(r => r.id === drizzleId && r.name === 'Drizzle List (hooked)')\<close> and
  \<^verbatim>\<open>queryResults.filter(r => powersyncIds.includes(r.id)).length\<close>.
\<close>

definition hasDrizzleItem :: "uuids \<Rightarrow> row list \<Rightarrow> bool" where
  "hasDrizzleItem uuid queryResults =
     list_ex (\<lambda>r. row_id r = Some (drizzleId uuid) \<and> row_name r = Some ''Drizzle List (hooked)'')
       queryResults"

definition is_powersync_row :: "uuids \<Rightarrow> row \<Rightarrow> bool" where
  "is_powersync_row uuid r =
     (case row_id r of None \<Rightarrow> False | Some i \<Rightarrow> i \<in> set (powersyncIds uuid))"

definition powersyncItemsCount :: "uuids \<Rightarrow> row list \<Rightarrow> nat" where
  "powersyncItemsCount uuid queryResults = length (filter (is_powersync_row uuid) queryResults)"

text \<open>What the function does with the rows of the final \<^verbatim>\<open>SELECT\<close>.\<close>

definition hooked_result :: "uuids \<Rightarrow> row list \<Rightarrow> TestResult" where
  "hooked_result uuid queryResults =
     (let expectedCount = length (powersyncIds uuid) + 1;
          passed =
            (length queryResults = expectedCount
             \<and> hasDrizzleItem uuid queryResults
             \<and> powersyncItemsCount uuid queryResults = length (powersyncIds uuid))
      in \<lparr> name = ''Hooked connection concurrent writes succeed'',
           passed = passed,
           error =
             (if passed then None
              else Some (''Expected '' @ number_toString expectedCount
                     @ '' items (PowerSync + Drizzle on same connection), got ''
                     @ number_toString (length queryResults)
                     @ ''. PowerSync items: '' @ number_toString (powersyncItemsCount uuid queryResults)
                     @ '', Drizzle item found: ''
                     @ (if hasDrizzleItem uuid queryResults then ''true'' else ''false''))) \<rparr>)"

text \<open>
  The post-condition as the specification words it: the query returns exactly
  \<^verbatim>\<open>POWER_SYNC_WRITE_COUNT + 1\<close> rows, the identifier inserted through the ORM is present
  with its inserted name, and every identifier inserted through the sync engine is present.
\<close>

definition spec_insert_postcondition :: "uuids \<Rightarrow> row list \<Rightarrow> bool" where
  "spec_insert_postcondition uuid queryResults =
     (length queryResults = POWER_SYNC_WRITE_COUNT + 1
      \<and> list_ex (\<lambda>r. row_id r = Some (drizzleId uuid) \<and> row_name r = Some ''Drizzle List (hooked)'')
            queryResults
      \<and> list_all (\<lambda>i. list_ex (\<lambda>r. row_id r = Some i) queryResults) (powersyncIds uuid))"

text \<open>
  The awaited calls before it: the initial \<^verbatim>\<open>DELETE FROM lists\<close>, the
  \<^verbatim>\<open>Promise.all\<close> over the inserts, and the final \<^verbatim>\<open>SELECT\<close>. Each can reject, and
  then the function rejects with the same value.
\<close>

record hooked_env =
  initial_delete :: "js_thrown option"
  all_writes :: "js_thrown option"
  final_select :: "js_thrown + row list"

definition runHookedConnectionSimultaneousWrites :: "uuids \<Rightarrow> hooked_env \<Rightarrow> js_thrown + TestResult" where
  "runHookedConnectionSimultaneousWrites uuid env =
     (case initial_delete env of
        Some err \<Rightarrow> Inl err
      | None \<Rightarrow>
          (case all_writes env of
             Some err \<Rightarrow> Inl err
           | None \<Rightarrow>
               (case final_select env of
                  Inl err \<Rightarrow> Inl err
                | Inr queryResults \<Rightarrow> Inr (hooked_result uuid queryResults))))"

subsection \<open>Concrete runs\<close>

text \<open>Identifiers that differ from call to call.\<close>

definition numbered_uuid :: uuids where
  "numbered_uuid n = ''id-'' @ number_toString n"

definition powersync_row :: "nat \<Rightarrow> row" where
  "powersync_row k =
     \<lparr> row_id = Some (numbered_uuid k),
       row_name = Some (''PowerSync List '' @ number_toString k),
       row_owner_id = None \<rparr>"

definition drizzle_row :: row where
  "drizzle_row =
     \<lparr> row_id = Some (numbered_uuid 0),
       row_name = Some ''Drizzle List (hooked)'',
       row_owner_id = None \<rparr>"

text \<open>All the rows the test inserted, and the same with one row twice and one missing.\<close>

definition complete_rows :: "row list" where
  "complete_rows = drizzle_row # map powersync_row [1 ..< Suc POWER_SYNC_WRITE_COUNT]"

definition duplicated_rows :: "row list" where
  "duplicated_rows =
     drizzle_row # powersync_row 1 # map powersync_row [1 ..< POWER_SYNC_WRITE_COUNT]"

definition duplicated_run :: hooked_env where
  "duplicated_run =
     \<lparr> initial_delete = None, all_writes = None, final_select = Inr duplicated_rows \<rparr>"

definition complete_run :: hooked_env where
  "complete_run =
     \<lparr> initial_delete = None, all_writes = None, final_select = Inr complete_rows \<rparr>"

text \<open>The separate connection cannot take the write lock: its own \<^verbatim>\<open>BEGIN\<close> throws.\<close>

definition begin_refused :: lock_env where
  "begin_refused =
     \<lparr> separate_begin = Some (JSError ''database is locked''),
       managed_insert = None,
       separate_rollback = Some (JSError ''cannot rollback - no transaction is active'') \<rparr>"

text \<open>The separate connection holds the lock and the managed insert fails on it.\<close>

definition insert_refused :: lock_env where
  "insert_refused =
     \<lparr> separate_begin = None,
       managed_insert = Some (JSError ''database is LOCKED''),
       separate_rollback = None \<rparr>"

section \<open>The demo application: the update and commit hooks of \<^verbatim>\<open>System\<close>\<close>

text \<open>
  What the native driver passes to the update hook, and the notification the hook
  buffers.
\<close>

datatype operation = INSERT | DELETE | UPDATE

datatype RowUpdateType = SQLITE_INSERT | SQLITE_DELETE | SQLITE_UPDATE

record UpdateHookData =
  hook_operation :: operation
  hook_table :: string
  hook_rowId :: nat

record UpdateNotification =
  table :: string
  opType :: RowUpdateType
  rowId :: nat

text \<open>
  \<^verbatim>\<open>groupedUpdates\<close> is a plain object created by the literal \<^verbatim>\<open>{}\<close>: its own
  properties, in the order of their creation, each holding an array of notifications;
  behind them the properties every object inherits from \<^verbatim>\<open>Object.prototype\<close>.
\<close>

type_synonym grouping = "(string \<times> UpdateNotification list) list"

record BatchedUpdateNotification =
  groupedUpdates :: grouping
  rawUpdates :: "UpdateNotification list"
  tables :: "string list"

text \<open>
  A listener registered with the sync engine's database adapter: its reference, and
  whether it has the optional \<^verbatim>\<open>tablesUpdated\<close> handler.
\<close>

record DBAdapterListener =
  listener_ref :: nat
  has_tablesUpdated :: bool

text \<open>The part of \<^verbatim>\<open>System\<close> the hooks work on.\<close>

record System =
  updateBuffer :: "UpdateNotification list"

text \<open>The update hook: the \<^verbatim>\<open>switch\<close> on the operation, then the \<^verbatim>\<open>push\<close>.\<close>

fun row_update_type :: "operation \<Rightarrow> RowUpdateType" where
  "row_update_type INSERT = SQLITE_INSERT"
| "row_update_type DELETE = SQLITE_DELETE"
| "row_update_type UPDATE = SQLITE_UPDATE"

definition updateHook_callback :: "UpdateHookData \<Rightarrow> System \<Rightarrow> System" where
  "updateHook_callback update s =
     s\<lparr> updateBuffer := updateBuffer s
          @ [\<lparr> table = hook_table update,
               opType = row_update_type (hook_operation update),
               rowId = hook_rowId update \<rparr>] \<rparr>"

text \<open>The names of the properties of \<^verbatim>\<open>Object.prototype\<close>.\<close>

definition Object_prototype_keys :: "string list" where
  "Object_prototype_keys =
     [''constructor'', ''hasOwnProperty'', ''isPrototypeOf'', ''propertyIsEnumerable'',
      ''toLocaleString'', ''toString'', ''valueOf'', ''__proto__'',
      ''__defineGetter__'', ''__defineSetter__'', ''__lookupGetter__'', ''__lookupSetter__'']"

text \<open>
  \<^verbatim>\<open>grouping[table]\<close>: the array of an own property, or the function or object
  inherited under that name, or \<^verbatim>\<open>undefined\<close>.
\<close>

datatype property_value = OwnArray "UpdateNotification list" | Inherited | Undefined

definition get_property :: "grouping \<Rightarrow> string \<Rightarrow> property_value" where
  "get_property grouping key =
     (case map_of grouping key of
        Some updates \<Rightarrow> OwnArray updates
      | None \<Rightarrow> if key \<in> set Object_prototype_keys then Inherited else Undefined)"

text \<open>A \<^verbatim>\<open>push\<close> onto the array an own property holds.\<close>

definition push_own :: "string \<Rightarrow> UpdateNotification \<Rightarrow> grouping \<Rightarrow> grouping" where
  "push_own key update grouping =
     map (\<lambda>(k, updates). if k = key then (k, updates @ [update]) else (k, updates)) grouping"

text \<open>
  The function given to \<^verbatim>\<open>reduce\<close>:
  \<^verbatim>\<open>const updateGroup = grouping[table] || (grouping[table] = []); updateGroup.push(update)\<close>.
  An array is truthy, and so is every inherited value: the right-hand side of \<^verbatim>\<open>||\<close>
  runs only for \<^verbatim>\<open>undefined\<close>. An inherited value has no \<^verbatim>\<open>push\<close>, and the call
  throws a \<^verbatim>\<open>TypeError\<close>.
\<close>

definition group_update :: "grouping \<Rightarrow> UpdateNotification \<Rightarrow> js_thrown + grouping" where
  "group_update grouping update =
     (case get_property grouping (table update) of
        OwnArray updates \<Rightarrow> Inr (push_own (table update) update grouping)
      | Inherited \<Rightarrow> Inl (JSError ''TypeError: updateGroup.push is not a function'')
      | Undefined \<Rightarrow> Inr (grouping @ [(table update, [update])]))"

fun reduce_grouping :: "grouping \<Rightarrow> UpdateNotification list \<Rightarrow> js_thrown + grouping" where
  "reduce_grouping grouping [] = Inr grouping"
| "reduce_grouping grouping (update # updates) =
     (case group_update grouping update of
        Inl e \<Rightarrow> Inl e
      | Inr grouping' \<Rightarrow> reduce_grouping grouping' updates)"

text \<open>
  \<^verbatim>\<open>Object.keys\<close>: the own property names that are array indices (the decimal form of
  a number below \<open>2\<^sup>3\<^sup>2 - 1\<close>) in ascending order, then the others in the order of
  their creation.
\<close>

definition is_digit :: "char \<Rightarrow> bool" where
  "is_digit ch = (48 \<le> (of_char ch :: nat) \<and> (of_char ch :: nat) \<le> 57)"

definition is_array_index :: "string \<Rightarrow> bool" where
  "is_array_index s =
     (s \<noteq> [] \<and> list_all is_digit s \<and> (s = ''0'' \<or> hd s \<noteq> CHR ''0'')
      \<and> nat_of_digits s < 4294967295)"

definition Object_keys :: "grouping \<Rightarrow> string list" where
  "Object_keys grouping =
     (let keys = map fst grouping
      in sort_key nat_of_digits (filter is_array_index keys)
         @ filter (\<lambda>k. \<not> is_array_index k) keys)"

text \<open>
  \<^verbatim>\<open>adapter.iterateListeners(l => l.tablesUpdated?.(batchedUpdate))\<close>: the calls made,
  each with the reference of the listener called and the argument.
\<close>

definition iterateListeners ::
  "DBAdapterListener list \<Rightarrow> BatchedUpdateNotification \<Rightarrow> (nat \<times> BatchedUpdateNotification) list" where
  "iterateListeners listeners batchedUpdate =
     map (\<lambda>l. (listener_ref l, batchedUpdate)) (filter has_tablesUpdated listeners)"

text \<open>
  The commit hook. It returns what it throws (if anything), the state it leaves and the
  calls of \<^verbatim>\<open>tablesUpdated\<close> it made. (The calls of \<^verbatim>\<open>console\<close> are left out.)
\<close>

definition commitHook_callback ::
  "DBAdapterListener list \<Rightarrow> System
     \<Rightarrow> js_thrown option \<times> System \<times> (nat \<times> BatchedUpdateNotification) list" where
  "commitHook_callback listeners s =
     (if length (updateBuffer s) = 0 then (None, s, [])
      else
        (case reduce_grouping [] (updateBuffer s) of
           Inl e \<Rightarrow> (Some e, s, [])
         | Inr grouped \<Rightarrow>
             (let batchedUpdate =
                    \<lparr> groupedUpdates = grouped,
                      rawUpdates = updateBuffer s,
                      tables = Object_keys grouped \<rparr>
              in (None, s\<lparr> updateBuffer := [] \<rparr>, iterateListeners listeners batchedUpdate))))"

subsection \<open>Concrete buffers and listeners\<close>

definition two_listeners :: "DBAdapterListener list" where
  "two_listeners =
     [\<lparr> listener_ref = 1, has_tablesUpdated = True \<rparr>,
      \<lparr> listener_ref = 2, has_tablesUpdated = False \<rparr>]"

text \<open>Three row changes on the tables of the demo.\<close>

definition lists_and_todos :: "UpdateNotification list" where
  "lists_and_todos =
     [\<lparr> table = ''lists'', opType = SQLITE_INSERT, rowId = 1 \<rparr>,
      \<lparr> table = ''todos'', opType = SQLITE_INSERT, rowId = 1 \<rparr>,
      \<lparr> table = ''lists'', opType = SQLITE_UPDATE, rowId = 1 \<rparr>]"

text \<open>One row inserted into a table named \<^verbatim>\<open>constructor\<close>.\<close>

definition constructor_insert :: "UpdateNotification list" where
  "constructor_insert = [\<lparr> table = ''constructor'', opType = SQLITE_INSERT, rowId = 1 \<rparr>]"

section \<open>Logger selection\<close>

text \<open>
  Claim C10. The factory selects the session logger as follows: \<^verbatim>\<open>config.logger === true\<close>
  gives a \<^verbatim>\<open>DefaultLogger\<close>; \<^verbatim>\<open>config.logger === false\<close> and an absent
  \<^verbatim>\<open>config.logger\<close> give a \<^verbatim>\<open>NoopLogger\<close>; any logger object supplied in
  \<^verbatim>\<open>config.logger\<close> is used as it is.
\<close>

theorem drizzle_logger_selection:
  "session_logger (drizzle \<lparr> cfg_logger = Some (Flag True) \<rparr>) = DefaultLogger
   \<and> session_logger (drizzle \<lparr> cfg_logger = Some (Flag False) \<rparr>) = NoopLogger
   \<and> session_logger (drizzle \<lparr> cfg_logger = None \<rparr>) = NoopLogger
   \<and> session_logger (drizzle \<lparr> cfg_logger = Some (LoggerObject l) \<rparr>) = l"
  by (simp add: drizzle_def new_session_def drizzle_logger_def)

section \<open>The transaction wrapper\<close>

lemma run_events: "run drv q c = (r, c') \<Longrightarrow> events c' = events c @ [Run q]"
  by (auto simp: run_def split: prod.splits)

lemma sqlToQuery_begin:
  "sqlToQuery (sql_begin config)
     = \<lparr> query_sql = ''begin?'', query_params = [begin_suffix config] \<rparr>"
  by (simp add: sqlToQuery_def sql_begin_def)

text \<open>
  What the wrapper does when a statement of its own throws. A \<^verbatim>\<open>begin\<close> that throws
  ends the call: the callback is not entered and nothing else runs.
\<close>

lemma transaction_begin_throws:
  assumes "run drv (sql_begin config) c = (Some e, c1)"
  shows "transaction drv this f config c = (Inl e, c1)"
  using assms by (simp add: transaction_def)

text \<open>
  A \<^verbatim>\<open>commit\<close> that throws is caught like an error of the callback: \<^verbatim>\<open>rollback\<close>
  runs and, where \<^verbatim>\<open>rollback\<close> does not throw in its turn, the error of \<^verbatim>\<open>commit\<close> is
  thrown again.
\<close>

lemma transaction_commit_throws:
  assumes "run drv (sql_begin config) c = (None, c1)"
      and "f (new_tx this) (c1\<lparr> events := events c1 @ [Callback] \<rparr>) = (Inr v, c2)"
      and "run drv sql_commit c2 = (Some err, c3)"
      and "run drv sql_rollback c3 = (None, c4)"
  shows "transaction drv this f config c = (Inl err, c4)"
  using assms by (simp add: transaction_def rollback_and_rethrow_def)

text \<open>
  Around a callback that returns, on a driver that accepts the wrapper's first and last
  statements: the first statement runs, then the callback is entered once, on the
  connection as the first statement left it, then \<^verbatim>\<open>commit\<close> runs on the connection as
  the callback left it, and the callback's value is returned.
\<close>

lemma transaction_commits:
  assumes "run drv (sql_begin config) c = (None, c1)"
      and "f (new_tx this) (c1\<lparr> events := events c1 @ [Callback] \<rparr>) = (Inr v, c2)"
      and "run drv sql_commit c2 = (None, c3)"
  shows "transaction drv this f config c = (Inr v, c3)
         \<and> events c1 = events c @ [Run (sql_begin config)]
         \<and> events c3 = events c2 @ [Run sql_commit]"
proof -
  have "transaction drv this f config c = (Inr v, c3)"
    using assms by (simp add: transaction_def)
  moreover have "events c1 = events c @ [Run (sql_begin config)]"
    using assms(1) by (rule run_events)
  moreover have "events c3 = events c2 @ [Run sql_commit]"
    using assms(3) by (rule run_events)
  ultimately show ?thesis
    by blast
qed

text \<open>
  On a driver that accepts every statement, a callback that inserts one row and returns
  42: the trace is the wrapper's first statement, the callback, its insert,
  \<^verbatim>\<open>commit\<close>.
\<close>

lemma transaction_commits_example:
  "transaction counting_driver (drizzle \<lparr>cfg_logger = None\<rparr>)
     (inserting_callback counting_driver 42)
     \<lparr>behavior = Some Immediate, accessMode = None\<rparr> fresh_conn
   = (Inr 42,
      \<lparr>events = [Run (sql_begin \<lparr>behavior = Some Immediate, accessMode = None\<rparr>), Callback,
                 Run sql_insert_list, Run sql_commit],
       db = 3\<rparr>)"
proof -
  let ?cfg = "\<lparr>behavior = Some Immediate, accessMode = None\<rparr>"
  let ?c1 = "\<lparr>events = [Run (sql_begin ?cfg)], db = Suc 0\<rparr>"
  let ?c2 = "\<lparr>events = [Run (sql_begin ?cfg), Callback, Run sql_insert_list], db = 2\<rparr>"
  let ?c3 = "\<lparr>events = [Run (sql_begin ?cfg), Callback, Run sql_insert_list, Run sql_commit],
              db = 3\<rparr>"
  have b: "run counting_driver (sql_begin ?cfg) fresh_conn = (None, ?c1)"
    by (simp add: run_def counting_driver_def fresh_conn_def)
  have f: "inserting_callback counting_driver 42 (new_tx (drizzle \<lparr>cfg_logger = None\<rparr>))
             (?c1\<lparr> events := events ?c1 @ [Callback] \<rparr>) = (Inr 42, ?c2)"
    by (simp add: inserting_callback_def run_def counting_driver_def numeral_2_eq_2)
  have k: "run counting_driver sql_commit ?c2 = (None, ?c3)"
    by (simp add: run_def counting_driver_def numeral_3_eq_3 numeral_2_eq_2)
  from transaction_commits [where f = "inserting_callback counting_driver 42"
      and this = "drizzle \<lparr>cfg_logger = None\<rparr>", OF b f k]
  show ?thesis by simp
qed

text \<open>
  On a locked database the first statement throws: the callback, which would return 42,
  is never entered, \<^verbatim>\<open>commit\<close> never runs and the call throws.
\<close>

lemma transaction_begin_locked_example:
  "transaction locked_driver (drizzle \<lparr>cfg_logger = None\<rparr>) (returning_callback 42)
     \<lparr>behavior = Some Immediate, accessMode = None\<rparr> fresh_conn
   = (Inl (JSError ''database is locked''),
      \<lparr>events = [Run (sql_begin \<lparr>behavior = Some Immediate, accessMode = None\<rparr>)], db = 0\<rparr>)"
  by (simp add: transaction_def run_def locked_driver_def fresh_conn_def)

text \<open>
  Claim C1 at the call \<^verbatim>\<open>transaction(f, { behavior: 'immediate' })\<close>, with a callback that
  returns 42, on a client that accepts whatever it is given. The claim says that the
  statement \<^verbatim>\<open>begin immediate\<close> is executed on the connection. The wrapper builds its
  first statement with the \<^verbatim>\<open>sql\<close> tag, so the suffix is an interpolated value: the
  client is given the text \<^verbatim>\<open>begin?\<close> with the string \<^verbatim>\<open>' immediate'\<close> bound as a
  parameter, then (the callback having returned) \<^verbatim>\<open>commit\<close>. With no behaviour
  configured the client is given \<^verbatim>\<open>begin?\<close> as well, with the empty string bound.
\<close>

theorem transaction_begin_binds_suffix:
  "transaction (session_driver recording_client) (drizzle \<lparr>cfg_logger = None\<rparr>)
     (returning_callback 42)
     \<lparr>behavior = Some Immediate, accessMode = None\<rparr> \<lparr>events = [], db = []\<rparr>
   = (Inr 42,
      \<lparr>events = [Run (sql_begin \<lparr>behavior = Some Immediate, accessMode = None\<rparr>), Callback,
                 Run sql_commit],
       db = [\<lparr>query_sql = ''begin?'', query_params = ['' immediate'']\<rparr>,
             \<lparr>query_sql = ''commit'', query_params = []\<rparr>]\<rparr>)
   \<and> query_sql (sqlToQuery (sql_begin \<lparr>behavior = Some Immediate, accessMode = None\<rparr>))
       \<noteq> ''begin immediate''
   \<and> sqlToQuery (sql_begin \<lparr>behavior = None, accessMode = None\<rparr>)
       = \<lparr>query_sql = ''begin?'', query_params = [[]]\<rparr>"
  by (simp add: transaction_def run_def session_driver_def recording_client_def
      returning_callback_def sqlToQuery_def sql_begin_def sql_commit_def begin_suffix_def)

text \<open>
  Claim C2, as the code has it. Provided the \<^verbatim>\<open>begin\<close> and \<^verbatim>\<open>rollback\<close> statements
  themselves do not throw: for a callback \<open>f\<close> that throws \<open>e\<close>, the wrapper runs
  \<^verbatim>\<open>rollback\<close> on the connection as \<open>f\<close> left it and nothing after it, so no
  \<^verbatim>\<open>commit\<close>, and throws \<open>e\<close> itself.
\<close>

theorem transaction_rolls_back:
  assumes "run drv (sql_begin config) c = (None, c1)"
      and "f (new_tx this) (c1\<lparr> events := events c1 @ [Callback] \<rparr>) = (Inl e, c2)"
      and "run drv sql_rollback c2 = (None, c3)"
  shows "transaction drv this f config c = (Inl e, c3)
         \<and> events c3 = events c2 @ [Run sql_rollback]
         \<and> sql_rollback \<noteq> sql_commit"
proof -
  have "transaction drv this f config c = (Inl e, c3)"
    using assms by (simp add: transaction_def rollback_and_rethrow_def)
  moreover have "events c3 = events c2 @ [Run sql_rollback]"
    using assms(3) by (rule run_events)
  moreover have "sql_rollback \<noteq> sql_commit"
    by (simp add: sql_rollback_def sql_commit_def)
  ultimately show ?thesis by blast
qed

theorem transaction_rolls_back_witness:
  "transaction counting_driver (drizzle \<lparr>cfg_logger = None\<rparr>)
     (throwing_callback (JSOther ''boom''))
     \<lparr>behavior = None, accessMode = None\<rparr> fresh_conn
   = (Inl (JSOther ''boom''),
      \<lparr>events = [Run (sql_begin \<lparr>behavior = None, accessMode = None\<rparr>), Callback,
                 Run sql_rollback],
       db = 2\<rparr>)"
proof -
  let ?cfg = "\<lparr>behavior = None, accessMode = None\<rparr>"
  let ?c1 = "\<lparr>events = [Run (sql_begin ?cfg)], db = Suc 0\<rparr>"
  let ?c2 = "\<lparr>events = [Run (sql_begin ?cfg), Callback], db = Suc 0\<rparr>"
  let ?c3 = "\<lparr>events = [Run (sql_begin ?cfg), Callback, Run sql_rollback], db = 2\<rparr>"
  have b: "run counting_driver (sql_begin ?cfg) fresh_conn = (None, ?c1)"
    by (simp add: run_def counting_driver_def fresh_conn_def)
  have f: "throwing_callback (JSOther ''boom'') (new_tx (drizzle \<lparr>cfg_logger = None\<rparr>))
             (?c1\<lparr> events := events ?c1 @ [Callback] \<rparr>) = (Inl (JSOther ''boom''), ?c2)"
    by (simp add: throwing_callback_def)
  have k: "run counting_driver sql_rollback ?c2 = (None, ?c3)"
    by (simp add: run_def counting_driver_def numeral_2_eq_2)
  from transaction_rolls_back [where f = "throwing_callback (JSOther ''boom'')"
      and this = "drizzle \<lparr>cfg_logger = None\<rparr>", OF b f k]
  show ?thesis by simp
qed

text \<open>
  The claim as it is written fails where \<^verbatim>\<open>rollback\<close> itself throws: the callback throws
  \<^verbatim>\<open>Error('boom')\<close>, and the call throws the error of \<^verbatim>\<open>rollback\<close> in its place.
\<close>

theorem transaction_rollback_throws_counterexample:
  "transaction autorollback_driver (drizzle \<lparr>cfg_logger = None\<rparr>)
     (throwing_callback (JSError ''boom''))
     \<lparr>behavior = None, accessMode = None\<rparr> fresh_conn
   = (Inl (JSError ''cannot rollback - no transaction is active''),
      \<lparr>events = [Run (sql_begin \<lparr>behavior = None, accessMode = None\<rparr>), Callback,
                 Run sql_rollback],
       db = 1\<rparr>)
   \<and> fst (transaction autorollback_driver (drizzle \<lparr>cfg_logger = None\<rparr>)
         (throwing_callback (JSError ''boom''))
         \<lparr>behavior = None, accessMode = None\<rparr> fresh_conn) \<noteq> Inl (JSError ''boom'')"
  by (simp add: transaction_def rollback_and_rethrow_def run_def autorollback_driver_def
      throwing_callback_def fresh_conn_def sql_begin_def sql_rollback_def begin_suffix_def)

text \<open>
  Claim C3. The transaction object that \<^verbatim>\<open>OPSQLiteSession.transaction\<close> hands to its
  callback sits on an \<^verbatim>\<open>OPSQLiteBaseSession\<close>, so every \<^verbatim>\<open>tx.transaction(g, config)\<close>
  throws \<^verbatim>\<open>Error('Nested transactions are not supported')\<close> and leaves the connection as
  it was: \<open>g\<close> is not entered and no statement runs, whatever \<open>g\<close> and the configuration
  are. A callback that only makes such a call therefore behaves as one that throws this
  error at once.
\<close>

theorem nested_transaction_rejected:
  "tx_transaction drv (new_tx this) g config c
     = (Inl (JSError ''Nested transactions are not supported''), c)
   \<and> transaction drv this (\<lambda>tx. tx_transaction drv tx g config) config' c
     = transaction drv this
         (\<lambda>tx c'. (Inl (JSError ''Nested transactions are not supported''), c')) config' c"
proof -
  have inner: "tx_transaction drv (new_tx this) g config c
     = (Inl (JSError ''Nested transactions are not supported''), c)" for c
    by (simp add: tx_transaction_def session_transaction_def new_tx_def new_session_def
        base_transaction_def)
  then show ?thesis
    by (simp add: transaction_def Let_def split: prod.splits option.splits)
qed

text \<open>
  A callback that only tries to nest a transaction, on a driver that executes every
  statement: \<^verbatim>\<open>begin\<close>, the callback, \<^verbatim>\<open>rollback\<close>, and the error of the nested call
  thrown by the outer one. The nested callback never ran.
\<close>

lemma nested_transaction_example:
  "transaction counting_driver (drizzle \<lparr>cfg_logger = None\<rparr>)
     (nesting_callback counting_driver (returning_callback 7)
        \<lparr>behavior = None, accessMode = None\<rparr>)
     \<lparr>behavior = None, accessMode = None\<rparr> fresh_conn
   = (Inl (JSError ''Nested transactions are not supported''),
      \<lparr>events = [Run (sql_begin \<lparr>behavior = None, accessMode = None\<rparr>), Callback,
                 Run sql_rollback],
       db = 2\<rparr>)"
  by (simp add: transaction_def nesting_callback_def tx_transaction_def session_transaction_def
      new_tx_def new_session_def base_transaction_def rollback_and_rethrow_def run_def
      counting_driver_def fresh_conn_def numeral_2_eq_2)

text \<open>
  Claim C8. \<^verbatim>\<open>accessMode\<close> has no effect: changing that field of the configuration
  alone changes neither the statements that run, nor the state of the connection, nor
  the value returned or the error thrown.
\<close>

theorem accessMode_has_no_effect:
  "transaction drv this f (config\<lparr> accessMode := a \<rparr>) c = transaction drv this f config c"
  by (simp add: transaction_def sql_begin_def begin_suffix_def)

section \<open>The harness's strings\<close>

lemma js_includes_iff: "js_includes s t \<longleftrightarrow> (\<exists>p q. s = p @ t @ q)"
proof (induction s)
  case Nil
  then show ?case by simp
next
  case (Cons x xs)
  have "(\<exists>p q. x # xs = p @ t @ q) \<longleftrightarrow> (\<exists>q. x # xs = t @ q) \<or> (\<exists>p q. xs = p @ t @ q)"
    by (metis append_eq_Cons_conv append_self_conv2)
  moreover have "(\<exists>q. x # xs = t @ q) \<longleftrightarrow> take (length t) (x # xs) = t"
    by (metis append_eq_conv_conj)
  ultimately show ?case
    using Cons.IH by simp
qed

lemma nat_of_digits_snoc:
  "nat_of_digits (s @ [ch]) = 10 * nat_of_digits s + (of_char ch - 48)"
  by (simp add: nat_of_digits_def)

lemma nat_of_digits_number_toString: "nat_of_digits (number_toString n) = n"
proof (induction n rule: number_toString.induct)
  case (1 n)
  show ?case
  proof (cases "n < 10")
    case True
    then show ?thesis
      by (subst number_toString.simps) (simp add: nat_of_digits_def digit_char_def)
  next
    case False
    have "n mod 10 < 10" by simp
    then have digit: "(of_char (digit_char (n mod 10)) :: nat) - 48 = n mod 10"
      by (simp add: digit_char_def)
    have "nat_of_digits (number_toString n)
            = nat_of_digits (number_toString (n div 10) @ [digit_char (n mod 10)])"
      using False by (subst number_toString.simps) simp
    also have "\<dots> = 10 * (n div 10) + n mod 10"
      using "1.IH" False digit by (simp only: nat_of_digits_snoc) simp
    finally show ?thesis by simp
  qed
qed

lemma inj_numbered_uuid: "numbered_uuid a = numbered_uuid b \<longleftrightarrow> a = b"
  by (metis numbered_uuid_def same_append_eq nat_of_digits_number_toString)

section \<open>The locking test\<close>

lemma lockDetected_iff:
  "lockDetected lockError \<longleftrightarrow> (\<exists>m p q. lockError = Some m \<and> toLowerCase m = p @ ''lock'' @ q)"
proof (cases lockError)
  case None
  then show ?thesis by (simp add: lockDetected_def)
next
  case (Some m)
  have "toLowerCase m = p @ ''lock'' @ q \<Longrightarrow> m \<noteq> []" for p q
    by (auto simp: toLowerCase_def)
  with Some show ?thesis
    by (auto simp: lockDetected_def js_includes_iff)
qed

text \<open>
  Claim C4, as the code has it. The error caught by the test is what
  \<^verbatim>\<open>BEGIN IMMEDIATE TRANSACTION\<close> on the separate connection throws, or else what the
  insert through the managed connection throws. The result has \<^verbatim>\<open>passed = true\<close> exactly
  when an error was caught whose text, in lower case, contains \<^verbatim>\<open>lock\<close>; and its
  \<^verbatim>\<open>error\<close> field is undefined exactly when \<^verbatim>\<open>passed\<close> is true.
\<close>

theorem runLockingTest_passed_iff:
  "passed (fst (runLockingTest uuid env)) =
     (\<exists>err p q.
        (case separate_begin env of Some e \<Rightarrow> Some e | None \<Rightarrow> managed_insert env) = Some err
        \<and> toLowerCase (error_text err) = p @ ''lock'' @ q)
   \<and> (error (fst (runLockingTest uuid env)) = None) = passed (fst (runLockingTest uuid env))"
proof -
  have caught: "fst (locking_try uuid env) =
      map_option error_text
        (case separate_begin env of Some e \<Rightarrow> Some e | None \<Rightarrow> managed_insert env)"
    by (simp add: locking_try_def Let_def split: option.splits)
  have "passed (fst (runLockingTest uuid env)) = lockDetected (fst (locking_try uuid env))"
    by (simp add: runLockingTest_def split: prod.splits)
  moreover have "(error (fst (runLockingTest uuid env)) = None)
      = lockDetected (fst (locking_try uuid env))"
    by (simp add: runLockingTest_def split: prod.splits)
  ultimately show ?thesis
    unfolding caught lockDetected_iff by auto
qed

text \<open>
  The run the test is written for: the separate connection takes the lock, the insert
  through the managed connection throws \<^verbatim>\<open>database is LOCKED\<close>, and the test passes
  whatever the case of the letters.
\<close>

lemma runLockingTest_insert_refused_example:
  "runLockingTest numbered_uuid insert_refused
     = (\<lparr> name = ''Separate write connection blocks PowerSync write'',
          passed = True, error = None \<rparr>,
        [SeparateExecuteSync ''BEGIN IMMEDIATE TRANSACTION'',
         ManagedExecute ''INSERT INTO lists (id, name, owner_id) VALUES (?, ?, ?)''
           [numbered_uuid 0, ''Locked insert'', numbered_uuid 1],
         SeparateExecuteSync ''ROLLBACK''])"
  by code_simp

text \<open>
  The claim as it is written fails where the separate connection's own
  \<^verbatim>\<open>BEGIN IMMEDIATE TRANSACTION\<close> throws \<^verbatim>\<open>database is locked\<close>: the test passes, although
  no write through the managed connection was made (and here it would not have failed).
\<close>

theorem runLockingTest_begin_refused_counterexample:
  "passed (fst (runLockingTest numbered_uuid begin_refused))
   \<and> snd (runLockingTest numbered_uuid begin_refused)
       = [SeparateExecuteSync ''BEGIN IMMEDIATE TRANSACTION'', SeparateExecuteSync ''ROLLBACK'']
   \<and> managed_insert begin_refused = None"
  by (simp add: runLockingTest_def locking_try_def begin_refused_def lockDetected_def
      toLowerCase_def lower_char_def)

section \<open>The hooked-connection test\<close>

lemma length_powersyncIds: "length (powersyncIds uuid) = POWER_SYNC_WRITE_COUNT"
  by (simp add: powersyncIds_def)

lemma is_powersync_row_iff:
  "is_powersync_row uuid r \<longleftrightarrow> row_id r \<in> Some ` set (powersyncIds uuid)"
  by (auto simp: is_powersync_row_def split: option.splits)

text \<open>
  Counting the rows that carry one of the identifiers against the number of identifiers.
  When no two rows share an identifier, a full count means that every identifier has its
  row; the converse needs the identifiers themselves to differ from each other.
\<close>

lemma full_count_all_present:
  fixes ids :: "string list"
  assumes rows: "distinct (map row_id rows)"
      and count: "length (filter (\<lambda>r. row_id r \<in> Some ` set ids) rows) = length ids"
  shows "\<forall>i \<in> set ids. \<exists>r \<in> set rows. row_id r = Some i"
proof -
  let ?hit = "filter (\<lambda>r. row_id r \<in> Some ` set ids) rows"
  have d: "distinct (map row_id ?hit)"
    using rows by (simp add: distinct_map_filter)
  have sub: "set (map row_id ?hit) \<subseteq> Some ` set ids"
    by auto
  have "card (Some ` set ids) \<le> length ids"
    by (metis card_image_le card_length le_trans List.finite_set)
  also have "\<dots> = card (set (map row_id ?hit))"
    using d count by (metis distinct_card length_map)
  finally have eq: "set (map row_id ?hit) = Some ` set ids"
    using sub by (simp add: card_seteq)
  show ?thesis
  proof
    fix i assume "i \<in> set ids"
    then have "Some i \<in> set (map row_id ?hit)"
      using eq by blast
    then obtain r where "r \<in> set ?hit" and "row_id r = Some i"
      by auto
    then show "\<exists>r \<in> set rows. row_id r = Some i"
      by auto
  qed
qed

lemma hooked_result_passed:
  "passed (hooked_result uuid rows) \<longleftrightarrow>
     length rows = POWER_SYNC_WRITE_COUNT + 1
     \<and> (\<exists>r \<in> set rows. row_id r = Some (drizzleId uuid) \<and> row_name r = Some ''Drizzle List (hooked)'')
     \<and> length (filter (\<lambda>r. row_id r \<in> Some ` set (powersyncIds uuid)) rows)
         = POWER_SYNC_WRITE_COUNT"
proof -
  have "is_powersync_row uuid = (\<lambda>r. row_id r \<in> Some ` set (powersyncIds uuid))"
    by (rule ext) (rule is_powersync_row_iff)
  then show ?thesis
    by (simp add: hooked_result_def Let_def hasDrizzleItem_def powersyncItemsCount_def
      length_powersyncIds list_ex_iff)
qed

lemma all_present_full_count:
  fixes ids :: "string list"
  assumes rows: "distinct (map row_id rows)"
      and ids: "distinct ids"
      and present: "\<forall>i \<in> set ids. \<exists>r \<in> set rows. row_id r = Some i"
  shows "length (filter (\<lambda>r. row_id r \<in> Some ` set ids) rows) = length ids"
proof -
  let ?hit = "filter (\<lambda>r. row_id r \<in> Some ` set ids) rows"
  have d: "distinct (map row_id ?hit)"
    using rows by (simp add: distinct_map_filter)
  have "set (map row_id ?hit) = Some ` set ids"
    using present by force
  then have "card (set (map row_id ?hit)) = card (set ids)"
    by (simp add: card_image)
  then show ?thesis
    using d ids by (metis distinct_card length_map)
qed

lemma spec_insert_postcondition_iff:
  "spec_insert_postcondition uuid rows \<longleftrightarrow>
     length rows = POWER_SYNC_WRITE_COUNT + 1
     \<and> (\<exists>r \<in> set rows. row_id r = Some (drizzleId uuid) \<and> row_name r = Some ''Drizzle List (hooked)'')
     \<and> (\<forall>i \<in> set (powersyncIds uuid). \<exists>r \<in> set rows. row_id r = Some i)"
  by (simp add: spec_insert_postcondition_def list_ex_iff list_all_iff)

text \<open>
  Whatever rows the final \<^verbatim>\<open>SELECT\<close> returns, the test decides by counting: it passes
  exactly when there are \<^verbatim>\<open>POWER_SYNC_WRITE_COUNT + 1\<close> rows, the row inserted through the
  ORM is among them with its name, and \<^verbatim>\<open>POWER_SYNC_WRITE_COUNT\<close> of the rows carry an
  identifier inserted through the sync engine.
\<close>

lemma hooked_passed_count:
  assumes "initial_delete env = None"
      and "all_writes env = None"
      and "final_select env = Inr rows"
  shows "\<exists>r. runHookedConnectionSimultaneousWrites uuid env = Inr r
           \<and> (passed r \<longleftrightarrow>
                length rows = POWER_SYNC_WRITE_COUNT + 1
                \<and> list_ex (\<lambda>x. row_id x = Some (drizzleId uuid)
                              \<and> row_name x = Some ''Drizzle List (hooked)'') rows
                \<and> length (filter (\<lambda>x. row_id x \<in> Some ` set (powersyncIds uuid)) rows)
                    = POWER_SYNC_WRITE_COUNT)"
  using assms
  by (simp add: runHookedConnectionSimultaneousWrites_def hooked_result_passed list_ex_iff)

text \<open>
  Claim C5. The harness declares \<^verbatim>\<open>id\<close> the primary key of the table, so the rows a
  query returns carry pairwise distinct identifiers, and the identifiers of inserts that
  all succeeded differ from each other. On such a run, once the initial delete, the
  concurrent inserts and the final \<^verbatim>\<open>SELECT\<close> have completed, the test returns
  \<^verbatim>\<open>passed = true\<close> if and only if the \<^verbatim>\<open>SELECT\<close> returned exactly
  \<^verbatim>\<open>POWER_SYNC_WRITE_COUNT + 1\<close> rows, the identifier inserted through the ORM is present
  with its inserted name, and every one of the \<^verbatim>\<open>POWER_SYNC_WRITE_COUNT\<close> identifiers
  inserted through the sync engine is present: the post-condition of the specification.
\<close>

theorem hooked_passed_iff:
  assumes "initial_delete env = None"
      and "all_writes env = None"
      and "final_select env = Inr rows"
      and "distinct (map row_id rows)"
      and "distinct (powersyncIds uuid)"
  shows "\<exists>r. runHookedConnectionSimultaneousWrites uuid env = Inr r
           \<and> (passed r \<longleftrightarrow>
                length rows = POWER_SYNC_WRITE_COUNT + 1
                \<and> list_ex (\<lambda>x. row_id x = Some (drizzleId uuid)
                              \<and> row_name x = Some ''Drizzle List (hooked)'') rows
                \<and> list_all (\<lambda>i. list_ex (\<lambda>x. row_id x = Some i) rows) (powersyncIds uuid))
           \<and> passed r = spec_insert_postcondition uuid rows
           \<and> length (powersyncIds uuid) = POWER_SYNC_WRITE_COUNT"
proof -
  have run: "runHookedConnectionSimultaneousWrites uuid env = Inr (hooked_result uuid rows)"
    using assms(1-3) by (simp add: runHookedConnectionSimultaneousWrites_def)
  have "length (filter (\<lambda>x. row_id x \<in> Some ` set (powersyncIds uuid)) rows)
          = POWER_SYNC_WRITE_COUNT
        \<longleftrightarrow> (\<forall>i \<in> set (powersyncIds uuid). \<exists>r \<in> set rows. row_id r = Some i)"
    using full_count_all_present [OF assms(4), of "powersyncIds uuid"]
      all_present_full_count [OF assms(4) assms(5)]
    by (auto simp: length_powersyncIds)
  then have spec: "passed (hooked_result uuid rows) = spec_insert_postcondition uuid rows"
    by (simp add: hooked_result_passed spec_insert_postcondition_iff)
  then have "passed (hooked_result uuid rows) \<longleftrightarrow>
      length rows = POWER_SYNC_WRITE_COUNT + 1
      \<and> list_ex (\<lambda>x. row_id x = Some (drizzleId uuid)
                    \<and> row_name x = Some ''Drizzle List (hooked)'') rows
      \<and> list_all (\<lambda>i. list_ex (\<lambda>x. row_id x = Some i) rows) (powersyncIds uuid)"
    by (simp add: spec_insert_postcondition_def)
  with run spec show ?thesis
    by (simp add: length_powersyncIds)
qed

lemma set_powersyncIds:
  "set (powersyncIds uuid) = uuid ` {1 ..< Suc POWER_SYNC_WRITE_COUNT}"
  by (simp add: powersyncIds_def del: upt_Suc)

lemma powersync_row_hit:
  "row_id (powersync_row k) \<in> Some ` set (powersyncIds numbered_uuid)
     \<longleftrightarrow> 1 \<le> k \<and> k \<le> POWER_SYNC_WRITE_COUNT"
  by (auto simp: set_powersyncIds powersync_row_def inj_numbered_uuid)

lemma drizzle_row_no_hit:
  "row_id drizzle_row \<notin> Some ` set (powersyncIds numbered_uuid)"
  by (auto simp: set_powersyncIds drizzle_row_def inj_numbered_uuid)

lemma powersync_rows_hit:
  assumes "\<forall>k \<in> set ks. 1 \<le> k \<and> k \<le> POWER_SYNC_WRITE_COUNT"
  shows "filter (\<lambda>x. row_id x \<in> Some ` set (powersyncIds numbered_uuid)) (map powersync_row ks)
           = map powersync_row ks"
  using assms by (simp add: filter_id_conv powersync_row_hit)

lemma distinct_powersyncIds_numbered: "distinct (powersyncIds numbered_uuid)"
  by (simp add: powersyncIds_def distinct_map inj_on_def inj_numbered_uuid del: upt_Suc)

lemma distinct_complete_rows: "distinct (map row_id complete_rows)"
proof -
  have "map row_id complete_rows
          = map (\<lambda>k. Some (numbered_uuid k)) (0 # [1 ..< Suc POWER_SYNC_WRITE_COUNT])"
    by (simp add: complete_rows_def drizzle_row_def powersync_row_def comp_def del: upt_Suc)
  moreover have "distinct (map (\<lambda>k. Some (numbered_uuid k)) (0 # [1 ..< Suc POWER_SYNC_WRITE_COUNT]))"
    unfolding distinct_map by (simp add: inj_on_def inj_numbered_uuid del: upt_Suc)
  ultimately show ?thesis by simp
qed

text \<open>
  With all 101 inserted rows returned, each once, the test passes and the post-condition of
  the specification holds.
\<close>

theorem hooked_passed_iff_witness:
  "\<exists>r. runHookedConnectionSimultaneousWrites numbered_uuid complete_run = Inr r
      \<and> passed r \<and> spec_insert_postcondition numbered_uuid complete_rows"
proof -
  have count: "length (filter (\<lambda>x. row_id x \<in> Some ` set (powersyncIds numbered_uuid)) complete_rows)
                 = POWER_SYNC_WRITE_COUNT"
    using drizzle_row_no_hit powersync_rows_hit [of "[1 ..< Suc POWER_SYNC_WRITE_COUNT]"]
    by (simp add: complete_rows_def del: upt_Suc)
  have item: "\<exists>r \<in> set complete_rows. row_id r = Some (drizzleId numbered_uuid)
                \<and> row_name r = Some ''Drizzle List (hooked)''"
    by (simp add: complete_rows_def drizzle_row_def drizzleId_def del: upt_Suc)
  have len: "length complete_rows = POWER_SYNC_WRITE_COUNT + 1"
    by (simp add: complete_rows_def del: upt_Suc)
  from count item len have pass: "passed (hooked_result numbered_uuid complete_rows)"
    by (simp add: hooked_result_passed)
  from hooked_passed_iff [of complete_run complete_rows numbered_uuid]
    distinct_complete_rows distinct_powersyncIds_numbered
  obtain r where r: "runHookedConnectionSimultaneousWrites numbered_uuid complete_run = Inr r"
      and s: "passed r = spec_insert_postcondition numbered_uuid complete_rows"
    by (auto simp: complete_run_def)
  from r have "r = hooked_result numbered_uuid complete_rows"
    by (simp add: runHookedConnectionSimultaneousWrites_def complete_run_def)
  with pass s r show ?thesis by blast
qed

text \<open>
  What the counting does on rows that a table with a primary key cannot return: with the
  row of the first identifier twice and the row of the last one missing there are 101
  rows of which 100 carry an inserted identifier, and the count is full although one
  inserted identifier is absent. The hypothesis on the returned rows is what excludes it.
\<close>

lemma hooked_repeated_id_example:
  "runHookedConnectionSimultaneousWrites numbered_uuid duplicated_run
     = Inr (hooked_result numbered_uuid duplicated_rows)
   \<and> passed (hooked_result numbered_uuid duplicated_rows)
   \<and> \<not> distinct (map row_id duplicated_rows)
   \<and> \<not> spec_insert_postcondition numbered_uuid duplicated_rows"
proof -
  have run: "runHookedConnectionSimultaneousWrites numbered_uuid duplicated_run
     = Inr (hooked_result numbered_uuid duplicated_rows)"
    by (simp add: runHookedConnectionSimultaneousWrites_def duplicated_run_def)
  have c: "(2::nat) \<le> POWER_SYNC_WRITE_COUNT"
    by (simp add: POWER_SYNC_WRITE_COUNT_def)
  have "length (filter (\<lambda>x. row_id x \<in> Some ` set (powersyncIds numbered_uuid)) duplicated_rows)
          = Suc (POWER_SYNC_WRITE_COUNT - 1)"
    using drizzle_row_no_hit powersync_rows_hit [of "[1 ..< POWER_SYNC_WRITE_COUNT]"]
      powersync_row_hit [of 1] c
    by (simp add: duplicated_rows_def)
  moreover have "length duplicated_rows = Suc (Suc (POWER_SYNC_WRITE_COUNT - 1))"
    by (simp add: duplicated_rows_def)
  moreover have "list_ex (\<lambda>x. row_id x = Some (drizzleId numbered_uuid)
                \<and> row_name x = Some ''Drizzle List (hooked)'') duplicated_rows"
    by (simp add: duplicated_rows_def drizzle_row_def drizzleId_def)
  ultimately have pass: "passed (hooked_result numbered_uuid duplicated_rows)"
    using c by (simp add: hooked_result_passed list_ex_iff)
  have member: "numbered_uuid POWER_SYNC_WRITE_COUNT \<in> set (powersyncIds numbered_uuid)"
    using c by (simp add: set_powersyncIds)
  have absent: "\<not> list_ex (\<lambda>r. row_id r = Some (numbered_uuid POWER_SYNC_WRITE_COUNT)) duplicated_rows"
    using c by (auto simp: list_ex_iff duplicated_rows_def drizzle_row_def powersync_row_def
        inj_numbered_uuid)
  from member absent have "\<not> spec_insert_postcondition numbered_uuid duplicated_rows"
    by (auto simp: spec_insert_postcondition_iff list_ex_iff)
  moreover have "\<not> distinct (map row_id duplicated_rows)"
  proof -
    have "Suc 0 \<in> {Suc 0 ..< POWER_SYNC_WRITE_COUNT}"
      using c by simp
    then have "row_id (powersync_row (Suc 0))
        \<in> (\<lambda>k. row_id (powersync_row k)) ` {Suc 0 ..< POWER_SYNC_WRITE_COUNT}"
      by (rule imageI)
    then show ?thesis
      by (simp add: duplicated_rows_def)
  qed
  ultimately show ?thesis
    using run pass by blast
qed

section \<open>The update hook and the commit hook\<close>

text \<open>The update hook adds one notification at the end of the buffer.\<close>

lemma updateHook_buffers:
  "updateBuffer (updateHook_callback update s)
     = updateBuffer s
       @ [\<lparr> table = hook_table update,
            opType = row_update_type (hook_operation update),
            rowId = hook_rowId update \<rparr>]"
  by (simp add: updateHook_callback_def)

lemma map_of_push_own:
  "map_of (push_own key update grouping) k
     = (if k = key then map_option (\<lambda>updates. updates @ [update]) (map_of grouping k)
        else map_of grouping k)"
  by (induction grouping) (auto simp: push_own_def)

lemma keys_push_own: "map fst (push_own key update grouping) = map fst grouping"
  by (induction grouping) (auto simp: push_own_def)

lemma names_push_own: "fst ` set (push_own key update grouping) = fst ` set grouping"
  using keys_push_own [of key update grouping] by (metis set_map)

lemma map_of_Some_name: "map_of grouping k = Some updates \<Longrightarrow> k \<in> fst ` set grouping"
  by (metis map_of_eq_None_iff option.distinct(1))

text \<open>
  One step of the grouping, for a table whose name is not a property of
  \<^verbatim>\<open>Object.prototype\<close>: the notification goes to the end of its table's group, which is
  created if the table is new.
\<close>

lemma group_update_Inr:
  assumes "table u \<notin> set Object_prototype_keys"
  shows "\<exists>g'. group_update g u = Inr g'
           \<and> fst ` set g' = insert (table u) (fst ` set g)
           \<and> (distinct (map fst g) \<longrightarrow> distinct (map fst g'))
           \<and> (\<forall>t. map_of g' t =
                 (if t = table u
                  then Some ((case map_of g t of Some updates \<Rightarrow> updates | None \<Rightarrow> []) @ [u])
                  else map_of g t))"
proof (cases "map_of g (table u)")
  case None
  then have new: "table u \<notin> fst ` set g"
    by (simp add: map_of_eq_None_iff)
  have "group_update g u = Inr (g @ [(table u, [u])])"
    using None assms by (simp add: group_update_def get_property_def)
  moreover have "map_of (g @ [(table u, [u])]) t =
      (if t = table u then Some ((case map_of g t of Some updates \<Rightarrow> updates | None \<Rightarrow> []) @ [u])
       else map_of g t)" for t
    using None by (simp add: map_add_def split: option.splits)
  ultimately show ?thesis
    using new by auto
next
  case (Some updates)
  then have old: "table u \<in> fst ` set g"
    by (rule map_of_Some_name)
  have "group_update g u = Inr (push_own (table u) u g)"
    using Some by (simp add: group_update_def get_property_def)
  moreover have "map_of (push_own (table u) u g) t =
      (if t = table u then Some ((case map_of g t of Some updates \<Rightarrow> updates | None \<Rightarrow> []) @ [u])
       else map_of g t)" for t
    using Some by (simp add: map_of_push_own)
  ultimately show ?thesis
    using old by (auto simp: keys_push_own names_push_own)
qed

text \<open>
  The whole \<^verbatim>\<open>reduce\<close>, from any grouping with distinct property names: every table
  of the notifications gets a property, and each property holds what it held followed by
  the notifications of its table, in their order.
\<close>

lemma reduce_grouping_Inr:
  assumes "\<forall>u \<in> set us. table u \<notin> set Object_prototype_keys"
      and "distinct (map fst g)"
  shows "\<exists>g'. reduce_grouping g us = Inr g'
           \<and> distinct (map fst g')
           \<and> fst ` set g' = fst ` set g \<union> table ` set us
           \<and> (\<forall>t. map_of g' t =
                 (if t \<in> fst ` set g \<union> table ` set us
                  then Some ((case map_of g t of Some updates \<Rightarrow> updates | None \<Rightarrow> [])
                             @ filter (\<lambda>u. table u = t) us)
                  else None))"
  using assms
proof (induction us arbitrary: g)
  case Nil
  have get: "map_of g t =
      (if t \<in> fst ` set g \<union> table ` set []
       then Some ((case map_of g t of Some updates \<Rightarrow> updates | None \<Rightarrow> [])
                  @ filter (\<lambda>u. table u = t) [])
       else None)" for t
    by (cases "map_of g t") (auto simp: map_of_eq_None_iff dest: map_of_Some_name)
  show ?case
  proof (intro exI conjI allI)
    show "reduce_grouping g [] = Inr g" by simp
    show "distinct (map fst g)" by (rule Nil.prems(2))
    show "fst ` set g = fst ` set g \<union> table ` set []" by simp
    show "map_of g t =
      (if t \<in> fst ` set g \<union> table ` set []
       then Some ((case map_of g t of Some updates \<Rightarrow> updates | None \<Rightarrow> [])
                  @ filter (\<lambda>u. table u = t) [])
       else None)" for t
      by (rule get)
  qed
next
  case (Cons u us)
  from Cons.prems have ok: "table u \<notin> set Object_prototype_keys"
    and rest: "\<forall>u \<in> set us. table u \<notin> set Object_prototype_keys"
    by simp_all
  from group_update_Inr [OF ok, of g] Cons.prems(2)
  obtain g1 where step: "group_update g u = Inr g1"
    and keys1: "fst ` set g1 = insert (table u) (fst ` set g)"
    and dist1: "distinct (map fst g1)"
    and get1: "\<And>t. map_of g1 t =
        (if t = table u
         then Some ((case map_of g t of Some updates \<Rightarrow> updates | None \<Rightarrow> []) @ [u])
         else map_of g t)"
    by blast
  from Cons.IH [OF rest dist1]
  obtain g2 where run: "reduce_grouping g1 us = Inr g2"
    and dist2: "distinct (map fst g2)"
    and keys2: "fst ` set g2 = fst ` set g1 \<union> table ` set us"
    and get2: "\<And>t. map_of g2 t =
        (if t \<in> fst ` set g1 \<union> table ` set us
         then Some ((case map_of g1 t of Some updates \<Rightarrow> updates | None \<Rightarrow> [])
                    @ filter (\<lambda>u. table u = t) us)
         else None)"
    by blast
  have "reduce_grouping g (u # us) = Inr g2"
    using step run by simp
  moreover have "fst ` set g2 = fst ` set g \<union> table ` set (u # us)"
    using keys1 keys2 by auto
  moreover have "map_of g2 t =
        (if t \<in> fst ` set g \<union> table ` set (u # us)
         then Some ((case map_of g t of Some updates \<Rightarrow> updates | None \<Rightarrow> [])
                    @ filter (\<lambda>u. table u = t) (u # us))
         else None)" for t
  proof (cases "t = table u")
    case True
    then show ?thesis
      unfolding get2 [of t] get1 [of t] keys1 by simp
  next
    case False
    then show ?thesis
      unfolding get2 [of t] get1 [of t] keys1 by auto
  qed
  ultimately show ?case
    using dist2 by blast
qed

lemma set_Object_keys: "set (Object_keys g) = fst ` set g"
  by (auto simp: Object_keys_def Let_def)

lemma distinct_Object_keys: "distinct (map fst g) \<Longrightarrow> distinct (Object_keys g)"
  by (auto simp: Object_keys_def Let_def)

text \<open>With an empty buffer the hook returns at once: no listener is called, nothing changes.\<close>

lemma commitHook_empty:
  "updateBuffer s = [] \<Longrightarrow> commitHook_callback listeners s = (None, s, [])"
  by (simp add: commitHook_callback_def)

text \<open>
  With a buffer that is not empty and none of whose tables is named like a property of
  \<^verbatim>\<open>Object.prototype\<close>, the hook returns; every listener that has a
  \<^verbatim>\<open>tablesUpdated\<close> handler is called once, in the order of registration, all with the
  same batch; the batch's \<^verbatim>\<open>rawUpdates\<close> is the buffer; its \<^verbatim>\<open>groupedUpdates\<close> has one
  property for each table of the buffer, holding the notifications of that table in their
  buffered order; its \<^verbatim>\<open>tables\<close> lists each of these tables once; and the buffer is left
  empty.
\<close>

lemma commitHook_notifies:
  assumes "updateBuffer s \<noteq> []"
      and "\<forall>u \<in> set (updateBuffer s). table u \<notin> set Object_prototype_keys"
  shows "\<exists>batch.
           commitHook_callback listeners s
             = (None, s\<lparr> updateBuffer := [] \<rparr>,
                map (\<lambda>l. (listener_ref l, batch)) (filter has_tablesUpdated listeners))
           \<and> rawUpdates batch = updateBuffer s
           \<and> (\<forall>t. map_of (groupedUpdates batch) t =
                 (if t \<in> table ` set (updateBuffer s)
                  then Some (filter (\<lambda>u. table u = t) (updateBuffer s)) else None))
           \<and> distinct (map fst (groupedUpdates batch))
           \<and> set (tables batch) = table ` set (updateBuffer s)
           \<and> distinct (tables batch)"
proof -
  from reduce_grouping_Inr [OF assms(2), of "[]"]
  obtain g where run: "reduce_grouping [] (updateBuffer s) = Inr g"
    and dist: "distinct (map fst g)"
    and keys: "fst ` set g = table ` set (updateBuffer s)"
    and get: "\<And>t. map_of g t =
        (if t \<in> table ` set (updateBuffer s)
         then Some (filter (\<lambda>u. table u = t) (updateBuffer s)) else None)"
    by auto
  let ?batch = "\<lparr> groupedUpdates = g, rawUpdates = updateBuffer s, tables = Object_keys g \<rparr>"
  have "commitHook_callback listeners s
          = (None, s\<lparr> updateBuffer := [] \<rparr>,
             map (\<lambda>l. (listener_ref l, ?batch)) (filter has_tablesUpdated listeners))"
    using assms(1) run by (simp add: commitHook_callback_def iterateListeners_def)
  moreover have "set (tables ?batch) = table ` set (updateBuffer s)"
    using keys by (simp add: set_Object_keys)
  moreover have "distinct (tables ?batch)"
    using dist by (simp add: distinct_Object_keys)
  ultimately show ?thesis
    using dist get by (intro exI [of _ ?batch]) simp
qed

text \<open>
  Claim C9. The update hook buffers changes to the tables of the database the demo opens:
  those of the \<^verbatim>\<open>lists\<close> and \<^verbatim>\<open>todos\<close> schema and the sync engine's own. None of them
  is named like a property of \<^verbatim>\<open>Object.prototype\<close>. On every such buffer: if it is empty,
  no listener is notified and the buffer stays empty; if it is not, the hook returns, every
  listener with a \<^verbatim>\<open>tablesUpdated\<close> handler receives one notification, all of them the
  same batch, whose \<^verbatim>\<open>rawUpdates\<close> is the buffer in its order, whose
  \<^verbatim>\<open>groupedUpdates\<close> holds for each table of the buffer the notifications of that table in
  their buffered order and nothing for any other table, and whose \<^verbatim>\<open>tables\<close> lists each
  table of the buffer once; and the buffer is empty when the hook has returned.
\<close>

theorem commitHook_batches:
  assumes "\<forall>u \<in> set (updateBuffer s). table u \<notin> set Object_prototype_keys"
  shows "(updateBuffer s = [] \<longrightarrow> commitHook_callback listeners s = (None, s, []))
       \<and> (updateBuffer s \<noteq> [] \<longrightarrow>
            (\<exists>batch.
               commitHook_callback listeners s
                 = (None, s\<lparr> updateBuffer := [] \<rparr>,
                    map (\<lambda>l. (listener_ref l, batch)) (filter has_tablesUpdated listeners))
               \<and> rawUpdates batch = updateBuffer s
               \<and> (\<forall>t. map_of (groupedUpdates batch) t =
                     (if t \<in> table ` set (updateBuffer s)
                      then Some (filter (\<lambda>u. table u = t) (updateBuffer s)) else None))
               \<and> distinct (map fst (groupedUpdates batch))
               \<and> set (tables batch) = table ` set (updateBuffer s)
               \<and> distinct (tables batch)))
       \<and> fst (commitHook_callback listeners s) = None
       \<and> updateBuffer (fst (snd (commitHook_callback listeners s))) = []"
proof (cases "updateBuffer s = []")
  case True
  then show ?thesis
    by (simp add: commitHook_empty)
next
  case False
  from commitHook_notifies [OF False assms, of listeners]
  obtain batch where b:
    "commitHook_callback listeners s
       = (None, s\<lparr> updateBuffer := [] \<rparr>,
          map (\<lambda>l. (listener_ref l, batch)) (filter has_tablesUpdated listeners))
     \<and> rawUpdates batch = updateBuffer s
     \<and> (\<forall>t. map_of (groupedUpdates batch) t =
           (if t \<in> table ` set (updateBuffer s)
            then Some (filter (\<lambda>u. table u = t) (updateBuffer s)) else None))
     \<and> distinct (map fst (groupedUpdates batch))
     \<and> set (tables batch) = table ` set (updateBuffer s)
     \<and> distinct (tables batch)"
    by blast
  then have returned: "fst (commitHook_callback listeners s) = None"
    and emptied: "updateBuffer (fst (snd (commitHook_callback listeners s))) = []"
    by simp_all
  from b have "\<exists>batch.
       commitHook_callback listeners s
         = (None, s\<lparr> updateBuffer := [] \<rparr>,
            map (\<lambda>l. (listener_ref l, batch)) (filter has_tablesUpdated listeners))
       \<and> rawUpdates batch = updateBuffer s
       \<and> (\<forall>t. map_of (groupedUpdates batch) t =
             (if t \<in> table ` set (updateBuffer s)
              then Some (filter (\<lambda>u. table u = t) (updateBuffer s)) else None))
       \<and> distinct (map fst (groupedUpdates batch))
       \<and> set (tables batch) = table ` set (updateBuffer s)
       \<and> distinct (tables batch)"
    by (rule exI)
  with False returned emptied show ?thesis
    by simp
qed

text \<open>
  Three changes on the demo's two tables, and two listeners of which the first has a
  handler: that listener is called once, with the three notifications grouped under
  \<^verbatim>\<open>lists\<close> and \<^verbatim>\<open>todos\<close>.
\<close>

theorem commitHook_batches_witness:
  "\<exists>batch.
     commitHook_callback two_listeners \<lparr> updateBuffer = lists_and_todos \<rparr>
       = (None, \<lparr> updateBuffer = [] \<rparr>, [(1, batch)])
     \<and> rawUpdates batch = lists_and_todos
     \<and> map_of (groupedUpdates batch) ''lists''
         = Some [\<lparr> table = ''lists'', opType = SQLITE_INSERT, rowId = 1 \<rparr>,
                 \<lparr> table = ''lists'', opType = SQLITE_UPDATE, rowId = 1 \<rparr>]
     \<and> map_of (groupedUpdates batch) ''todos''
         = Some [\<lparr> table = ''todos'', opType = SQLITE_INSERT, rowId = 1 \<rparr>]
     \<and> set (tables batch) = {''lists'', ''todos''}
     \<and> distinct (tables batch)"
proof -
  let ?s = "\<lparr> updateBuffer = lists_and_todos \<rparr>"
  have ok: "\<forall>u \<in> set (updateBuffer ?s). table u \<notin> set Object_prototype_keys"
    by (simp add: lists_and_todos_def Object_prototype_keys_def)
  have filled: "updateBuffer ?s \<noteq> []"
    by (simp add: lists_and_todos_def)
  from commitHook_batches [OF ok, of two_listeners] filled
  obtain batch where run: "commitHook_callback two_listeners ?s
        = (None, ?s\<lparr> updateBuffer := [] \<rparr>,
           map (\<lambda>l. (listener_ref l, batch)) (filter has_tablesUpdated two_listeners))"
    and raw: "rawUpdates batch = updateBuffer ?s"
    and grouped: "\<And>t. map_of (groupedUpdates batch) t =
           (if t \<in> table ` set (updateBuffer ?s)
            then Some (filter (\<lambda>u. table u = t) (updateBuffer ?s)) else None)"
    and names: "set (tables batch) = table ` set (updateBuffer ?s)"
    and once: "distinct (tables batch)"
    by blast
  have "commitHook_callback two_listeners ?s = (None, \<lparr> updateBuffer = [] \<rparr>, [(1, batch)])"
    using run by (simp add: two_listeners_def)
  moreover have "rawUpdates batch = lists_and_todos"
    using raw by simp
  moreover have "map_of (groupedUpdates batch) ''lists''
         = Some [\<lparr> table = ''lists'', opType = SQLITE_INSERT, rowId = 1 \<rparr>,
                 \<lparr> table = ''lists'', opType = SQLITE_UPDATE, rowId = 1 \<rparr>]"
    unfolding grouped by (simp add: lists_and_todos_def)
  moreover have "map_of (groupedUpdates batch) ''todos''
         = Some [\<lparr> table = ''todos'', opType = SQLITE_INSERT, rowId = 1 \<rparr>]"
    unfolding grouped by (simp add: lists_and_todos_def)
  moreover have "set (tables batch) = {''lists'', ''todos''}"
    using names by (auto simp: lists_and_todos_def)
  ultimately show ?thesis
    using once by blast
qed

text \<open>The same run, evaluated: the batch in full, with the tables in their order.\<close>

lemma commitHook_notifies_example:
  "commitHook_callback two_listeners \<lparr> updateBuffer = lists_and_todos \<rparr>
     = (None, \<lparr> updateBuffer = [] \<rparr>,
        [(1, \<lparr> groupedUpdates =
                 [(''lists'', [\<lparr> table = ''lists'', opType = SQLITE_INSERT, rowId = 1 \<rparr>,
                              \<lparr> table = ''lists'', opType = SQLITE_UPDATE, rowId = 1 \<rparr>]),
                  (''todos'', [\<lparr> table = ''todos'', opType = SQLITE_INSERT, rowId = 1 \<rparr>])],
               rawUpdates = lists_and_todos,
               tables = [''lists'', ''todos''] \<rparr>)])"
  by (simp add: commitHook_callback_def lists_and_todos_def two_listeners_def
      iterateListeners_def group_update_def get_property_def Object_prototype_keys_def
      push_own_def Object_keys_def is_array_index_def is_digit_def)

text \<open>
  Why the names of the tables matter. The grouping object is the literal \<^verbatim>\<open>{}\<close>, and for
  a name such as \<^verbatim>\<open>constructor\<close> the lookup \<^verbatim>\<open>grouping[table]\<close> finds what every object
  inherits instead of \<^verbatim>\<open>undefined\<close>: the \<^verbatim>\<open>push\<close> throws, no listener is called and the
  buffer is kept. The database of the demo has no such table.
\<close>

lemma commitHook_prototype_name_throws:
  assumes "updateBuffer s = u # us"
      and "table u \<in> set Object_prototype_keys"
  shows "commitHook_callback listeners s
           = (Some (JSError ''TypeError: updateGroup.push is not a function''), s, [])"
  using assms by (simp add: commitHook_callback_def group_update_def get_property_def)

lemma commitHook_constructor_example:
  "commitHook_callback two_listeners \<lparr> updateBuffer = constructor_insert \<rparr>
     = (Some (JSError ''TypeError: updateGroup.push is not a function''),
        \<lparr> updateBuffer = constructor_insert \<rparr>, [])"
  by (simp add: commitHook_callback_def constructor_insert_def group_update_def
      get_property_def Object_prototype_keys_def)

end
